theory Spec2Isabelle
  imports Main "HOL-Library.Multiset"
begin

section \<open>Errors\<close>

text \<open>
  The Python exceptions that the modelled functions of \<^verbatim>\<open>run_classifier.py\<close> can raise:
  \<^verbatim>\<open>list.pop()\<close> on an empty list and an index past the end raise IndexError, a missing
  dictionary key raises KeyError, a failed \<^verbatim>\<open>assert\<close> raises AssertionError.
\<close>

datatype py_error = IndexError | KeyError | AssertionError

section \<open>Sequence pair truncation\<close>

text \<open>
  \<^verbatim>\<open>
  def _truncate_seq_pair(tokens_a, tokens_b, max_length):
      while True:
          total_length = len(tokens_a) + len(tokens_b)
          if total_length <= max_length:
              break
          if len(tokens_a) > len(tokens_b):
              tokens_a.pop()
          else:
              tokens_b.pop()
  \<close>
  The two lists are mutated in place; the model returns them. \<^verbatim>\<open>pop()\<close> removes the last
  element (\<open>butlast\<close>) and raises IndexError on an empty list, which can only happen in the
  \<^verbatim>\<open>else\<close> branch (there \<open>tokens_a\<close> is not longer than \<open>tokens_b\<close>).
\<close>

function truncate_seq_pair ::
  "'a list \<Rightarrow> 'a list \<Rightarrow> int \<Rightarrow> py_error + ('a list \<times> 'a list)" where
  "truncate_seq_pair tokens_a tokens_b max_length =
     (if int (length tokens_a + length tokens_b) \<le> max_length then Inr (tokens_a, tokens_b)
      else if length tokens_a > length tokens_b
        then truncate_seq_pair (butlast tokens_a) tokens_b max_length
      else if tokens_b = [] then Inl IndexError
      else truncate_seq_pair tokens_a (butlast tokens_b) max_length)"
  by pat_completeness auto
termination
  by (relation "measure (\<lambda>(a, b, m). length a + length b)") auto

declare truncate_seq_pair.simps [simp del]

text \<open>
  The same loop with a bound on the number of removals: every \<^verbatim>\<open>pop()\<close> costs one unit of
  fuel, and \<open>None\<close> means that the bound was reached before the loop left.
\<close>

fun truncate_seq_pair_fuel ::
  "nat \<Rightarrow> 'a list \<Rightarrow> 'a list \<Rightarrow> int \<Rightarrow> (py_error + ('a list \<times> 'a list)) option" where
  "truncate_seq_pair_fuel n tokens_a tokens_b max_length =
     (if int (length tokens_a + length tokens_b) \<le> max_length then Some (Inr (tokens_a, tokens_b))
      else if length tokens_a > length tokens_b
        then (case n of 0 \<Rightarrow> None
              | Suc m \<Rightarrow> truncate_seq_pair_fuel m (butlast tokens_a) tokens_b max_length)
      else if tokens_b = [] then Some (Inl IndexError)
      else (case n of 0 \<Rightarrow> None
            | Suc m \<Rightarrow> truncate_seq_pair_fuel m tokens_a (butlast tokens_b) max_length))"

declare truncate_seq_pair_fuel.simps [simp del]

text \<open>
  The rule as the specification words it: the longer sequence loses its last token, and on
  equal lengths the first sequence does. One removal of that rule:
\<close>

definition spec_remove_one :: "'a list \<Rightarrow> 'a list \<Rightarrow> 'a list \<times> 'a list" where
  "spec_remove_one A B = (if length A \<ge> length B then (butlast A, B) else (A, butlast B))"

text \<open>
  The whole loop under that rule. The specification does not say what a removal from an
  empty sequence does; the model stops there with the error the source raises.
\<close>

function spec_truncate ::
  "'a list \<Rightarrow> 'a list \<Rightarrow> int \<Rightarrow> py_error + ('a list \<times> 'a list)" where
  "spec_truncate A B L' =
     (if int (length A + length B) > L'
      then (if A = [] \<and> B = [] then Inl IndexError
            else spec_truncate (fst (spec_remove_one A B)) (snd (spec_remove_one A B)) L')
      else Inr (A, B))"
  by pat_completeness auto
termination
proof (relation "measure (\<lambda>(a, b, m). length a + length b)")
  fix A B :: "'a list" and L' :: int
  assume "\<not> (A = [] \<and> B = [])"
  then have "length (fst (spec_remove_one A B)) + length (snd (spec_remove_one A B))
      < length A + length B"
    by (cases A; cases B) (auto simp: spec_remove_one_def)
  then show "((fst (spec_remove_one A B), snd (spec_remove_one A B), L'), A, B, L')
      \<in> measure (\<lambda>(a, b, m). length a + length b)"
    by simp
qed simp

declare spec_truncate.simps [simp del]

section \<open>Examples and feature records\<close>

text \<open>
  \<^verbatim>\<open>InputExample(guid, text_a, text_b=None, label=None)\<close> and
  \<^verbatim>\<open>InputFeatures(input_ids, input_mask, segment_ids, label_id, article_id=None)\<close>.
\<close>

record InputExample =
  guid :: string
  text_a :: string
  text_b :: "string option"
  label :: "string option"

record InputFeatures =
  input_ids :: "int list"
  input_mask :: "int list"
  segment_ids :: "int list"
  label_id :: "nat option"
  article_id :: "string option"

section \<open>The cached train/dev split of SemevalProcessor\<close>

text \<open>
  The processor object holds \<^verbatim>\<open>self.examples\<close>, \<^verbatim>\<open>None\<close> until the first call. Reading the
  two files is outside the model: \<open>created\<close> is what \<^verbatim>\<open>self._create_examples(data_dir)\<close>
  returns. \<^verbatim>\<open>math.floor(0.8 * n)\<close> is computed on doubles; for every list length below
  \<open>2 ^ 50\<close> it is the integer \<open>8 * n div 10\<close>, which the model takes.
\<close>

record 'e SemevalProcessor =
  examples :: "'e list option"

definition floor_0_8 :: "nat \<Rightarrow> nat" where
  "floor_0_8 n = (8 * n) div 10"

text \<open>
  \<^verbatim>\<open>
  def get_train_examples(self, data_dir):
      if self.examples is not None:
          return self.examples[:math.floor(len(self.examples))]
      else:
          self.examples = self._create_examples(data_dir)
          return self.examples[:math.floor(0.8*len(self.examples))]
  \<close>
\<close>

definition get_train_examples ::
  "'e list \<Rightarrow> 'e SemevalProcessor \<Rightarrow> 'e list \<times> 'e SemevalProcessor" where
  "get_train_examples created self =
     (case examples self of
        Some exs \<Rightarrow> (take (length exs) exs, self)
      | None \<Rightarrow> (take (floor_0_8 (length created)) created, self\<lparr>examples := Some created\<rparr>))"

text \<open>
  \<^verbatim>\<open>
  def get_dev_examples(self, data_dir):
      if self.examples is not None:
          return self.examples[math.floor(0.8*len(self.examples)):]
      else:
          self.examples = self._create_examples(data_dir)
          return self.examples[math.floor(0.8*len(self.examples)):]
  \<close>
\<close>

definition get_dev_examples ::
  "'e list \<Rightarrow> 'e SemevalProcessor \<Rightarrow> 'e list \<times> 'e SemevalProcessor" where
  "get_dev_examples created self =
     (case examples self of
        Some exs \<Rightarrow> (drop (floor_0_8 (length exs)) exs, self)
      | None \<Rightarrow> (drop (floor_0_8 (length created)) created, self\<lparr>examples := Some created\<rparr>))"

section \<open>The examples of SemevalOfficialProcessor\<close>

text \<open>
  An article element as \<^verbatim>\<open>_create_examples\<close> reads it: \<^verbatim>\<open>article.get('id')\<close> (\<^verbatim>\<open>None\<close> when
  the attribute is missing) and the text that
  \<^verbatim>\<open>" ".join(self._extract_text(article).split())\<close> gives. Preprocessing and XML parsing
  are outside the model.
\<close>

record article =
  art_id :: "string option"
  art_text :: string

text \<open>\<^verbatim>\<open>"%s" % x\<close> for a string or \<^verbatim>\<open>None\<close>.\<close>

definition py_str :: "string option \<Rightarrow> string" where
  "py_str x = (case x of None \<Rightarrow> ''None'' | Some s \<Rightarrow> s)"

text \<open>
  \<^verbatim>\<open>
  for index, article in enumerate(self._do_xml_parse(temp_fp, 'article')):
      article_id = article.get('id')
      article_guid = "%s-%s" % (set_type, article_id)
      article_text = " ".join(self._extract_text(article).split())
      examples.append(InputExample(guid=article_guid, text_a=article_text,
                                   text_b=None, label=None))
  \<close>
\<close>

definition official_example :: "string \<Rightarrow> article \<Rightarrow> InputExample" where
  "official_example set_type a =
     \<lparr>guid = set_type @ ''-'' @ py_str (art_id a), text_a = art_text a,
      text_b = None, label = None\<rparr>"

definition official_create_examples :: "article list \<Rightarrow> string \<Rightarrow> InputExample list" where
  "official_create_examples articles set_type = map (official_example set_type) articles"

text \<open>\<^verbatim>\<open>get_dev_examples\<close> of that processor calls it with the set type \<^verbatim>\<open>"inference"\<close>.\<close>

definition official_get_dev_examples :: "article list \<Rightarrow> InputExample list" where
  "official_get_dev_examples articles = official_create_examples articles ''inference''"

section \<open>Python list and string operations\<close>

text \<open>
  \<^verbatim>\<open>xs[lo:hi]\<close>: a negative bound counts from the end, and both bounds are clipped to the
  list.
\<close>

definition py_slice :: "'a list \<Rightarrow> int \<Rightarrow> int \<Rightarrow> 'a list" where
  "py_slice xs lo hi =
     (let n = int (length xs);
          lo' = (if lo < 0 then max (lo + n) 0 else min lo n);
          hi' = (if hi < 0 then max (hi + n) 0 else min hi n)
      in take (nat (hi' - lo')) (drop (nat lo') xs))"

text \<open>\<^verbatim>\<open>s.split(c)\<close> for a one-character separator: the fields between the separators.\<close>

fun py_split :: "char \<Rightarrow> string \<Rightarrow> string list" where
  "py_split c [] = [[]]"
| "py_split c (x # xs) =
     (if x = c then [] # py_split c xs
      else (case py_split c xs of [] \<Rightarrow> [[x]] | f # fs \<Rightarrow> (x # f) # fs))"

text \<open>\<^verbatim>\<open>xs[i]\<close> for a non-negative \<open>i\<close>.\<close>

definition py_index :: "'a list \<Rightarrow> nat \<Rightarrow> py_error + 'a" where
  "py_index xs i = (if i < length xs then Inr (xs ! i) else Inl IndexError)"

section \<open>The random source and \<^verbatim>\<open>random.shuffle\<close>\<close>

text \<open>
  The module-level generator is a state that every draw advances. The model makes it an
  infinite sequence of raw draws: \<^verbatim>\<open>randbelow(n)\<close> takes the next one modulo \<open>n\<close>.
  \<^verbatim>\<open>
  def shuffle(self, x):
      for i in reversed(range(1, len(x))):
          j = randbelow(i + 1)
          x[i], x[j] = x[j], x[i]
  \<close>
\<close>

type_synonym rng = "nat \<Rightarrow> nat"

definition randbelow :: "nat \<Rightarrow> rng \<Rightarrow> nat \<times> rng" where
  "randbelow n g = (g 0 mod n, (\<lambda>k. g (Suc k)))"

fun shuffle_loop :: "nat \<Rightarrow> 'a list \<Rightarrow> rng \<Rightarrow> 'a list \<times> rng" where
  "shuffle_loop 0 x g = (x, g)"
| "shuffle_loop (Suc i) x g =
     (case randbelow (Suc i + 1) g of
        (j, g') \<Rightarrow> shuffle_loop i (x[Suc i := x ! j, j := x ! Suc i]) g')"

definition shuffle :: "'a list \<Rightarrow> rng \<Rightarrow> 'a list \<times> rng" where
  "shuffle x g = shuffle_loop (length x - 1) x g"

section \<open>The augmentor\<close>

text \<open>
  \<^verbatim>\<open>
  def permutation(tokens, permute_ngrams):
      if permute_ngrams is None:
          return tokens
      ngrams = []
      i = 0
      num_tokens = len(tokens)
      while i < num_tokens:
          ngrams.append(tokens[i:i+permute_ngrams])
          i += permute_ngrams
      random.shuffle(ngrams)
      return reduce(lambda a,b: a + b, ngrams, [])
  \<close>
  The \<^verbatim>\<open>while\<close> loop need not end, so it is a partial function: \<open>None\<close> is "does not
  return".
\<close>

partial_function (option) ngrams_loop ::
  "'a list \<Rightarrow> int \<Rightarrow> int \<Rightarrow> 'a list list \<Rightarrow> 'a list list option" where
  "ngrams_loop tokens permute_ngrams i ngrams =
     (if i < int (length tokens)
      then ngrams_loop tokens permute_ngrams (i + permute_ngrams)
             (ngrams @ [py_slice tokens i (i + permute_ngrams)])
      else Some ngrams)"

declare ngrams_loop.simps [code]

definition permutation :: "'a list \<Rightarrow> int option \<Rightarrow> rng \<Rightarrow> ('a list \<times> rng) option" where
  "permutation tokens permute_ngrams g =
     (case permute_ngrams of
        None \<Rightarrow> Some (tokens, g)
      | Some w \<Rightarrow>
          (case ngrams_loop tokens w 0 [] of
             None \<Rightarrow> None
           | Some ngrams \<Rightarrow>
               (case shuffle ngrams g of (shuffled, g') \<Rightarrow> Some (foldl (@) [] shuffled, g'))))"

text \<open>
  The consecutive chunks of width \<open>w\<close> that the specification names: \<open>tokens[0:w]\<close>,
  \<open>tokens[w:2w]\<close>, and so on, the last one possibly shorter.
\<close>

function chunks :: "nat \<Rightarrow> 'a list \<Rightarrow> 'a list list" where
  "chunks w xs = (if w = 0 \<or> xs = [] then [] else take w xs # chunks w (drop w xs))"
  by pat_completeness auto
termination
  by (relation "measure (\<lambda>(w, xs). length xs)") auto

declare chunks.simps [simp del]

section \<open>The feature assembler\<close>

text \<open>
  The tokenizer is an external collaborator: \<^verbatim>\<open>tokenize\<close> turns a text into tokens and
  \<^verbatim>\<open>convert_tokens_to_ids\<close> looks each token up in the vocabulary, which may fail. Nothing
  is assumed about either.
\<close>

record bert_tokenizer =
  tokenize :: "string \<Rightarrow> string list"
  convert_tokens_to_ids :: "string list \<Rightarrow> py_error + int list"

text \<open>
  \<^verbatim>\<open>
  tokens_a = tokenizer.tokenize(example.text_a)
  tokens_a = permutation(tokens_a, permute_ngrams)
  tokens_b = None
  if example.text_b:
      tokens_b = tokenizer.tokenize(example.text_b)
      tokens_b = permutation(tokens_b, permute_ngrams)
  \<close>
  \<^verbatim>\<open>None\<close> and the empty string are both false in the test.
\<close>

definition tokenize_and_permute ::
  "bert_tokenizer \<Rightarrow> InputExample \<Rightarrow> int option \<Rightarrow> rng
     \<Rightarrow> (string list \<times> string list option \<times> rng) option" where
  "tokenize_and_permute tok example permute_ngrams g =
     (case permutation (tokenize tok (text_a example)) permute_ngrams g of
        None \<Rightarrow> None
      | Some (tokens_a, g1) \<Rightarrow>
          (case text_b example of
             None \<Rightarrow> Some (tokens_a, None, g1)
           | Some tb \<Rightarrow>
               if tb = [] then Some (tokens_a, None, g1)
               else (case permutation (tokenize tok tb) permute_ngrams g1 of
                       None \<Rightarrow> None
                     | Some (tokens_b, g2) \<Rightarrow> Some (tokens_a, Some tokens_b, g2))))"

text \<open>
  \<^verbatim>\<open>
  if tokens_b:
      _truncate_seq_pair(tokens_a, tokens_b, max_seq_length - 3)
  else:
      if len(tokens_a) > max_seq_length - 2:
          tokens_a = tokens_a[0:(max_seq_length - 2)]
  \<close>
  \<^verbatim>\<open>None\<close> and the empty list are both false in the test.
\<close>

definition truncate_single :: "string list \<Rightarrow> int \<Rightarrow> string list" where
  "truncate_single tokens_a max_seq_length =
     (if int (length tokens_a) > max_seq_length - 2
      then py_slice tokens_a 0 (max_seq_length - 2) else tokens_a)"

definition truncate_tokens ::
  "string list \<Rightarrow> string list option \<Rightarrow> int
     \<Rightarrow> py_error + (string list \<times> string list option)" where
  "truncate_tokens tokens_a tokens_b max_seq_length =
     (case tokens_b of
        None \<Rightarrow> Inr (truncate_single tokens_a max_seq_length, None)
      | Some b \<Rightarrow>
          if b \<noteq> []
          then (case truncate_seq_pair tokens_a b (max_seq_length - 3) of
                  Inl e \<Rightarrow> Inl e
                | Inr (a', b') \<Rightarrow> Inr (a', Some b'))
          else Inr (truncate_single tokens_a max_seq_length, Some b))"

text \<open>
  \<^verbatim>\<open>
  tokens = []
  segment_ids = []
  tokens.append("[CLS]")
  segment_ids.append(0)
  for token in tokens_a:
      tokens.append(token)
      segment_ids.append(0)
  tokens.append("[SEP]")
  segment_ids.append(0)
  if tokens_b:
      for token in tokens_b:
          tokens.append(token)
          segment_ids.append(1)
      tokens.append("[SEP]")
      segment_ids.append(1)
  \<close>
\<close>

definition assemble_tokens ::
  "string list \<Rightarrow> string list option \<Rightarrow> string list \<times> int list" where
  "assemble_tokens tokens_a tokens_b =
     (let tokens = [''[CLS]''] @ tokens_a @ [''[SEP]''];
          segs = [0] @ map (\<lambda>token. 0) tokens_a @ [0]
      in case tokens_b of
           None \<Rightarrow> (tokens, segs)
         | Some b \<Rightarrow>
             if b \<noteq> []
             then (tokens @ b @ [''[SEP]''], segs @ map (\<lambda>token. 1) b @ [1])
             else (tokens, segs))"

text \<open>
  Steps 1 to 5 together: the token stream with its boundary markers and the segment ids,
  before the conversion to ids. Its length is the real content length of the record.
\<close>

definition assembled_tokens ::
  "bert_tokenizer \<Rightarrow> InputExample \<Rightarrow> int \<Rightarrow> int option \<Rightarrow> rng
     \<Rightarrow> (py_error + (string list \<times> int list \<times> rng)) option" where
  "assembled_tokens tok example max_seq_length permute_ngrams g =
     (case tokenize_and_permute tok example permute_ngrams g of
        None \<Rightarrow> None
      | Some (tokens_a, tokens_b, g') \<Rightarrow>
          Some (case truncate_tokens tokens_a tokens_b max_seq_length of
                  Inl e \<Rightarrow> Inl e
                | Inr (tokens_a', tokens_b') \<Rightarrow>
                    (case assemble_tokens tokens_a' tokens_b' of
                       (tokens, segs) \<Rightarrow> Inr (tokens, segs, g'))))"

text \<open>
  \<^verbatim>\<open>
  while len(input_ids) < max_seq_length:
      input_ids.append(0)
      input_mask.append(0)
      segment_ids.append(0)
  \<close>
\<close>

function zero_pad ::
  "int list \<Rightarrow> int list \<Rightarrow> int list \<Rightarrow> int \<Rightarrow> int list \<times> int list \<times> int list" where
  "zero_pad ids msk segs max_seq_length =
     (if int (length ids) < max_seq_length
      then zero_pad (ids @ [0]) (msk @ [0]) (segs @ [0]) max_seq_length
      else (ids, msk, segs))"
  by pat_completeness auto
termination
  by (relation "measure (\<lambda>(ids, msk, segs, L). nat (L - int (length ids)))") auto

declare zero_pad.simps [simp del]

text \<open>\<^verbatim>\<open>label_map[example.label]\<close>: a label that is no key, \<^verbatim>\<open>None\<close> included, raises KeyError.\<close>

definition label_lookup :: "(string \<rightharpoonup> nat) \<Rightarrow> string option \<Rightarrow> py_error + nat" where
  "label_lookup label_map l =
     (case l of
        None \<Rightarrow> Inl KeyError
      | Some s \<Rightarrow> (case label_map s of None \<Rightarrow> Inl KeyError | Some i \<Rightarrow> Inr i))"

text \<open>
  \<^verbatim>\<open>
  input_ids = tokenizer.convert_tokens_to_ids(tokens)
  input_mask = [1] * len(input_ids)
  (the padding loop)
  assert len(input_ids) == max_seq_length
  assert len(input_mask) == max_seq_length
  assert len(segment_ids) == max_seq_length
  if not predict:
      label_id = label_map[example.label]
  else:
      label_id = None
  if not predict:
      return InputFeatures(input_ids=input_ids, input_mask=input_mask,
                           segment_ids=segment_ids, label_id=label_id)
  else:
      return InputFeatures(input_ids=input_ids, input_mask=input_mask,
                           segment_ids=segment_ids, label_id=label_id,
                           article_id=(example.guid.split('-')[1]))
  \<close>
  The logging of the record with \<^verbatim>\<open>ex_index < 1\<close> changes nothing and is left out.
\<close>

definition build_features ::
  "InputExample \<Rightarrow> int \<Rightarrow> bert_tokenizer \<Rightarrow> (string \<rightharpoonup> nat) \<Rightarrow> bool
     \<Rightarrow> string list \<Rightarrow> int list \<Rightarrow> py_error + InputFeatures" where
  "build_features example max_seq_length tok label_map predict tokens segs0 =
     (case convert_tokens_to_ids tok tokens of
        Inl e \<Rightarrow> Inl e
      | Inr ids0 \<Rightarrow>
          (case zero_pad ids0 (replicate (length ids0) 1) segs0
                  max_seq_length of
             (ids, msk, segs) \<Rightarrow>
               if int (length ids) \<noteq> max_seq_length then Inl AssertionError
               else if int (length msk) \<noteq> max_seq_length then Inl AssertionError
               else if int (length segs) \<noteq> max_seq_length then Inl AssertionError
               else if \<not> predict
                 then (case label_lookup label_map (label example) of
                         Inl e \<Rightarrow> Inl e
                       | Inr l \<Rightarrow>
                           Inr \<lparr>input_ids = ids, input_mask = msk,
                                segment_ids = segs, label_id = Some l,
                                article_id = None\<rparr>)
               else (case py_index (py_split CHR ''-'' (guid example)) 1 of
                       Inl e \<Rightarrow> Inl e
                     | Inr a \<Rightarrow>
                         Inr \<lparr>input_ids = ids, input_mask = msk,
                              segment_ids = segs, label_id = None,
                              article_id = Some a\<rparr>)))"

text \<open>
  \<^verbatim>\<open>
  def construct_features(inputs):
      ex_index, example, max_seq_length, tokenizer, label_map, predict, permute_ngrams = inputs
  \<close>
  The result is \<open>None\<close> when the call does not return, \<open>Some (Inl e)\<close> when it raises
  \<open>e\<close>, and otherwise the record with the advanced random source.
\<close>

definition construct_features ::
  "nat \<Rightarrow> InputExample \<Rightarrow> int \<Rightarrow> bert_tokenizer \<Rightarrow> (string \<rightharpoonup> nat) \<Rightarrow> bool \<Rightarrow> int option
     \<Rightarrow> rng \<Rightarrow> (py_error + (InputFeatures \<times> rng)) option" where
  "construct_features ex_index example max_seq_length tok label_map predict permute_ngrams g =
     (case assembled_tokens tok example max_seq_length permute_ngrams g of
        None \<Rightarrow> None
      | Some (Inl e) \<Rightarrow> Some (Inl e)
      | Some (Inr (tokens, segs, g')) \<Rightarrow>
          Some (case build_features example max_seq_length tok label_map predict
                       tokens segs of
                  Inl e \<Rightarrow> Inl e
                | Inr f \<Rightarrow> Inr (f, g')))"

section \<open>Properties of the truncation loop\<close>

lemma truncate_seq_pair_fuel_enough:
  "0 \<le> L \<Longrightarrow> nat (int (length A + length B) - L) \<le> n \<Longrightarrow>
   truncate_seq_pair_fuel n A B L = Some (truncate_seq_pair A B L)"
proof (induction n A B L rule: truncate_seq_pair_fuel.induct)
  case (1 n A B L)
  show ?case
  proof (cases "int (length A + length B) \<le> L")
    case True
    then show ?thesis
      by (simp add: truncate_seq_pair.simps truncate_seq_pair_fuel.simps)
  next
    case False
    note over = False
    show ?thesis
    proof (cases "length A > length B")
      case True
      with over 1 show ?thesis
        by (subst truncate_seq_pair_fuel.simps, subst truncate_seq_pair.simps)
           (auto split: nat.splits)
    next
      case False
      with over 1 show ?thesis
        by (subst truncate_seq_pair_fuel.simps, subst truncate_seq_pair.simps)
           (auto split: nat.splits)
    qed
  qed
qed

lemma truncate_seq_pair_fuel_short:
  "0 \<le> L \<Longrightarrow> n < nat (int (length A + length B) - L) \<Longrightarrow>
   truncate_seq_pair_fuel n A B L = None"
proof (induction n A B L rule: truncate_seq_pair_fuel.induct)
  case (1 n A B L)
  from 1(3,4) have over: "\<not> int (length A + length B) \<le> L" by linarith
  show ?case
  proof (cases "length A > length B")
    case True
    with over 1 show ?thesis
      by (subst truncate_seq_pair_fuel.simps) (auto split: nat.splits)
  next
    case False
    with over 1 show ?thesis
      by (subst truncate_seq_pair_fuel.simps) (auto split: nat.splits)
  qed
qed

lemma truncate_seq_pair_returns:
  "0 \<le> L \<Longrightarrow> \<exists>A' B'. truncate_seq_pair A B L = Inr (A', B')
      \<and> int (length A' + length B') = min (int (length A + length B)) L"
proof (induction A B L rule: truncate_seq_pair.induct)
  case (1 A B L)
  show ?case
  proof (cases "int (length A + length B) \<le> L")
    case True
    then show ?thesis
      by (simp add: truncate_seq_pair.simps)
  next
    case False
    note over = False
    show ?thesis
    proof (cases "length A > length B")
      case True
      with over 1 show ?thesis
        by (subst truncate_seq_pair.simps) auto
    next
      case False
      with over 1 show ?thesis
        by (subst truncate_seq_pair.simps) auto
    qed
  qed
qed

text \<open>
  With a negative budget the loop empties both lists and then pops from the empty second
  one.
\<close>

lemma truncate_seq_pair_negative_budget:
  "L < 0 \<Longrightarrow> truncate_seq_pair A B L = Inl IndexError"
proof (induction A B L rule: truncate_seq_pair.induct)
  case (1 A B L)
  show ?case
  proof (cases "length A > length B")
    case True
    with 1 show ?thesis
      by (subst truncate_seq_pair.simps) auto
  next
    case False
    with 1 show ?thesis
      by (subst truncate_seq_pair.simps) auto
  qed
qed

text \<open>
  The result in closed form, for a budget \<open>l\<close> that the two lists exceed: both lists keep
  a prefix, the first one keeps \<open>min (length A) (max ((l + 1) div 2) (l - length B))\<close>
  tokens and the second one the rest of the budget. With an odd budget and two long lists
  the first list keeps one token more: on equal lengths the second list is cut.
\<close>

lemma keep_first_longer_last: "la > lb \<Longrightarrow> la + lb = Suc l \<Longrightarrow>
    min la (max ((l + 1) div 2) (l - lb)) = la - 1 \<and> l - (la - 1) = lb"
  unfolding min_def max_def by (simp; linarith)

lemma keep_first_longer: "(la::nat) > lb \<Longrightarrow> la - 1 + lb > l \<Longrightarrow>
    min (la - 1) (max ((l + 1) div 2) (l - lb)) = min la (max ((l + 1) div 2) (l - lb))"
  unfolding min_def max_def by (simp; linarith)

lemma keep_second_longer_last: "la \<le> lb \<Longrightarrow> la + lb = Suc l \<Longrightarrow>
    min la (max ((l + 1) div 2) (l - lb)) = la \<and> l - la = lb - 1"
  unfolding min_def max_def by (simp; linarith)

lemma keep_second_longer: "(la::nat) \<le> lb \<Longrightarrow> la + (lb - 1) > l \<Longrightarrow>
    min la (max ((l + 1) div 2) (l - (lb - 1))) = min la (max ((l + 1) div 2) (l - lb))
    \<and> l - min la (max ((l + 1) div 2) (l - lb)) \<le> lb - 1"
  unfolding min_def max_def by (simp; linarith)

lemma take_butlast_le: "n \<le> length xs - 1 \<Longrightarrow> take n (butlast xs) = take n xs"
  by (simp add: butlast_conv_take min_absorb1)

lemma truncate_seq_pair_closed_form:
  assumes "length A + length B > l"
  shows "truncate_seq_pair A B (int l) =
     Inr (take (min (length A) (max ((l + 1) div 2) (l - length B))) A,
          take (l - min (length A) (max ((l + 1) div 2) (l - length B))) B)"
  using assms
proof (induction "length A + length B" arbitrary: A B rule: less_induct)
  case less
  note over = less.prems
  define m where "m = min (length A) (max ((l + 1) div 2) (l - length B))"
  have "truncate_seq_pair A B (int l) = Inr (take m A, take (l - m) B)"
  proof (cases "length A > length B")
    case True
    note gt = True
    have step: "truncate_seq_pair A B (int l) = truncate_seq_pair (butlast A) B (int l)"
      using gt over by (subst truncate_seq_pair.simps) simp
    show ?thesis
    proof (cases "length A + length B = Suc l")
      case True
      from keep_first_longer_last [OF gt True]
      have m: "m = length A - 1" "l - (length A - 1) = length B"
        by (simp_all only: m_def)
      have r: "take m A = butlast A" "take (l - m) B = B"
        unfolding m by (simp_all add: butlast_conv_take)
      have "int (length (butlast A) + length B) \<le> int l"
        using gt True by (cases A rule: rev_cases) simp_all
      then have "truncate_seq_pair (butlast A) B (int l) = Inr (butlast A, B)"
        by (subst truncate_seq_pair.simps) (simp only: if_True)
      then show ?thesis
        by (simp only: step r)
    next
      case False
      with over gt have more: "length A - 1 + length B > l" by simp
      from keep_first_longer [OF gt more]
      have m: "min (length A - 1) (max ((l + 1) div 2) (l - length B)) = m"
        by (simp only: m_def)
      have shorter: "length (butlast A) + length B < length A + length B"
        using gt by simp
      have more': "l < length (butlast A) + length B"
        using more by simp
      have "truncate_seq_pair (butlast A) B (int l) =
          Inr (take (min (length (butlast A)) (max ((l + 1) div 2) (l - length B))) (butlast A),
               take (l - min (length (butlast A)) (max ((l + 1) div 2) (l - length B))) B)"
        by (rule less.hyps [OF shorter more'])
      then have ih:
        "truncate_seq_pair (butlast A) B (int l) = Inr (take m (butlast A), take (l - m) B)"
        by (simp only: length_butlast m)
      have "m \<le> length A - 1"
        using m min.cobounded1 [of "length A - 1" "max ((l + 1) div 2) (l - length B)"]
        by (simp only:)
      then have "take m (butlast A) = take m A" by (rule take_butlast_le)
      with step ih show ?thesis by (simp only:)
    qed
  next
    case False
    then have le: "length A \<le> length B" by simp
    from le over have ne: "B \<noteq> []" by (cases B) simp_all
    have step: "truncate_seq_pair A B (int l) = truncate_seq_pair A (butlast B) (int l)"
      using le ne over by (subst truncate_seq_pair.simps) simp
    show ?thesis
    proof (cases "length A + length B = Suc l")
      case True
      from keep_second_longer_last [OF le True]
      have m: "m = length A" "l - length A = length B - 1"
        by (simp_all only: m_def)
      have r: "take m A = A" "take (l - m) B = butlast B"
        unfolding m by (simp_all add: butlast_conv_take)
      have "int (length A + length (butlast B)) \<le> int l"
        using ne True by (cases B rule: rev_cases) simp_all
      then have "truncate_seq_pair A (butlast B) (int l) = Inr (A, butlast B)"
        by (subst truncate_seq_pair.simps) (simp only: if_True)
      then show ?thesis
        by (simp only: step r)
    next
      case False
      with over ne have more: "length A + (length B - 1) > l"
        by (cases B) simp_all
      from keep_second_longer [OF le more]
      have k1: "min (length A) (max ((l + 1) div 2) (l - (length B - 1))) = m"
        and k2: "l - m \<le> length B - 1"
        by (simp_all only: m_def)
      have shorter: "length A + length (butlast B) < length A + length B"
        using ne by simp
      have more': "l < length A + length (butlast B)"
        using more by simp
      have "truncate_seq_pair A (butlast B) (int l) =
          Inr (take (min (length A) (max ((l + 1) div 2) (l - length (butlast B)))) A,
               take (l - min (length A) (max ((l + 1) div 2) (l - length (butlast B))))
                 (butlast B))"
        by (rule less.hyps [OF shorter more'])
      then have ih:
        "truncate_seq_pair A (butlast B) (int l) = Inr (take m A, take (l - m) (butlast B))"
        by (simp only: length_butlast k1)
      from k2 have "take (l - m) (butlast B) = take (l - m) B" by (rule take_butlast_le)
      with step ih show ?thesis by (simp only:)
    qed
  qed
  then show ?case by (simp only: m_def)
qed

text \<open>
  Claim C2, as the specification states it, has the loop remove from the first sequence
  when the two lengths are equal. On \<open>A = [1]\<close>, \<open>B = [2]\<close> and budget 1 the source removes
  from the second sequence instead, and the specification's rule gives another result.
\<close>

theorem truncate_seq_pair_tie_counterexample:
  "truncate_seq_pair [1 :: nat] [2] 1 = Inr ([1], [])
   \<and> spec_truncate [1 :: nat] [2] 1 = Inr ([], [2])"
  by (simp add: spec_remove_one_def truncate_seq_pair.simps spec_truncate.simps)

text \<open>
  Claim C2, amended: for every pair of token sequences \<open>A\<close>, \<open>B\<close> and every budget \<open>L\<close>,
  while \<open>len(A) + len(B) > L\<close> the truncator removes the last token of \<open>A\<close> when \<open>A\<close> is the
  longer one and the last token of \<open>B\<close> when \<open>B\<close> is the longer one; when the lengths are
  equal it removes the last token of \<open>B\<close>, and with both sequences empty (which needs a
  negative budget) that removal raises IndexError. Once the total is at most \<open>L\<close> the pair
  is returned as it is.
\<close>

theorem truncate_seq_pair_removes_from_longer:
  "truncate_seq_pair A B L =
     (if int (length A + length B) > L then
        (if length A > length B then truncate_seq_pair (butlast A) B L
         else if length A < length B then truncate_seq_pair A (butlast B) L
         else if B = [] then Inl IndexError
         else truncate_seq_pair A (butlast B) L)
      else Inr (A, B))"
  by (subst truncate_seq_pair.simps) auto

theorem truncate_seq_pair_removes_from_longer_witness:
  "truncate_seq_pair [1 :: nat, 2] [3, 4] 3 = truncate_seq_pair [1, 2] [3] 3
   \<and> truncate_seq_pair [1 :: nat, 2] [3] 3 = Inr ([1, 2], [3])"
  using truncate_seq_pair_removes_from_longer [of "[1 :: nat, 2]" "[3, 4]" 3]
    truncate_seq_pair_removes_from_longer [of "[1 :: nat, 2]" "[3]" 3]
  by simp

text \<open>
  Claim C6: on \<open>A = [1,2,3,4,5]\<close>, \<open>B = [1,2]\<close> and budget 4 the truncator ends with
  \<open>A = [1,2]\<close> and \<open>B = [1,2]\<close>, so with total length 4. \<open>B\<close> is returned untouched, so all
  removals came from \<open>A\<close>: there are exactly three of them (three removals suffice, two do
  not).
\<close>

theorem truncate_seq_pair_example:
  "truncate_seq_pair [1, 2, 3, 4, 5 :: nat] [1, 2] 4 = Inr ([1, 2], [1, 2])
   \<and> truncate_seq_pair_fuel 3 [1, 2, 3, 4, 5 :: nat] [1, 2] 4 = Some (Inr ([1, 2], [1, 2]))
   \<and> truncate_seq_pair_fuel 2 [1, 2, 3, 4, 5 :: nat] [1, 2] 4 = None"
  by (simp add: truncate_seq_pair.simps truncate_seq_pair_fuel.simps)

text \<open>
  Claim C7: for every pair of token sequences and every non-negative budget \<open>L\<close> the
  truncator returns (it raises nothing), and it does so within \<open>len(A) + len(B)\<close>
  removals: the total length after the loop is the smaller of the total before and \<open>L\<close>,
  and the loop makes exactly \<open>len(A) + len(B) - L\<close> removals when the total exceeds \<open>L\<close>
  and none otherwise, each removal taking one token off the total.
\<close>

theorem truncate_seq_pair_terminates:
  assumes "0 \<le> L"
  shows "\<exists>A' B'. truncate_seq_pair A B L = Inr (A', B')
     \<and> truncate_seq_pair_fuel (length A + length B) A B L = Some (Inr (A', B'))
     \<and> int (length A' + length B') = min (int (length A + length B)) L
     \<and> (\<forall>n. truncate_seq_pair_fuel n A B L = None
            \<longleftrightarrow> n < nat (int (length A + length B) - L))"
proof -
  from truncate_seq_pair_returns [OF assms, of A B] obtain A' B' where
    r: "truncate_seq_pair A B L = Inr (A', B')"
    and l: "int (length A' + length B') = min (int (length A + length B)) L"
    by blast
  from assms have "nat (int (length A + length B) - L) \<le> length A + length B"
    by simp
  from truncate_seq_pair_fuel_enough [OF assms this] r
  have f: "truncate_seq_pair_fuel (length A + length B) A B L = Some (Inr (A', B'))"
    by simp
  have "truncate_seq_pair_fuel n A B L = None
      \<longleftrightarrow> n < nat (int (length A + length B) - L)" for n
  proof (cases "n < nat (int (length A + length B) - L)")
    case True
    with truncate_seq_pair_fuel_short [OF assms True] show ?thesis by simp
  next
    case False
    then have "nat (int (length A + length B) - L) \<le> n" by simp
    from truncate_seq_pair_fuel_enough [OF assms this] False show ?thesis by simp
  qed
  with r l f show ?thesis by blast
qed

theorem truncate_seq_pair_terminates_witness:
  "(0 :: int) \<le> 2
   \<and> truncate_seq_pair [1, 2, 3 :: nat] [4] 2 = Inr ([1], [4])
   \<and> truncate_seq_pair_fuel (length [1, 2, 3 :: nat] + length [4 :: nat]) [1, 2, 3 :: nat] [4] 2
       = Some (Inr ([1], [4]))
   \<and> truncate_seq_pair_fuel 1 [1, 2, 3 :: nat] [4] 2 = None
   \<and> truncate_seq_pair_fuel 2 [1, 2, 3 :: nat] [4] 2 \<noteq> None"
proof -
  have h: "(0 :: int) \<le> 2" by simp
  have e: "truncate_seq_pair [1, 2, 3 :: nat] [4] 2 = Inr ([1], [4])"
    by (simp add: truncate_seq_pair.simps)
  from truncate_seq_pair_terminates [OF h, of "[1, 2, 3 :: nat]" "[4]"] obtain A' B' where
    r: "truncate_seq_pair [1, 2, 3 :: nat] [4] 2 = Inr (A', B')"
    and f: "truncate_seq_pair_fuel (length [1, 2, 3 :: nat] + length [4 :: nat]) [1, 2, 3] [4] 2
        = Some (Inr (A', B'))"
    and n: "\<And>n. truncate_seq_pair_fuel n [1, 2, 3 :: nat] [4] 2 = None
        \<longleftrightarrow> n < nat (int (length [1, 2, 3 :: nat] + length [4 :: nat]) - 2)"
    by blast
  from r e have ab: "A' = [1]" "B' = [4]" by simp_all
  have n1: "truncate_seq_pair_fuel 1 [1, 2, 3 :: nat] [4] 2 = None"
    by (subst n) simp
  have n2: "truncate_seq_pair_fuel 2 [1, 2, 3 :: nat] [4] 2 \<noteq> None"
    by (subst n) simp
  from h e f n1 n2 show ?thesis
    by (simp only: ab simp_thms)
qed

section \<open>Properties of the cached split\<close>

lemma get_train_examples_first_call:
  "examples self = None \<Longrightarrow>
   get_train_examples created self
     = (take (floor_0_8 (length created)) created, self\<lparr>examples := Some created\<rparr>)"
  by (simp add: get_train_examples_def)

lemma get_train_examples_cached:
  "examples self = Some exs \<Longrightarrow> get_train_examples created self = (exs, self)"
  by (simp add: get_train_examples_def)

lemma get_dev_examples_any_call:
  "fst (get_dev_examples created self)
     = (case examples self of
          None \<Rightarrow> drop (floor_0_8 (length created)) created
        | Some exs \<Rightarrow> drop (floor_0_8 (length exs)) exs)"
  by (simp add: get_dev_examples_def split: option.splits)

text \<open>
  Claim C1 says that \<^verbatim>\<open>get_train_examples\<close> returns the first \<open>floor(0.8 * N)\<close> examples on
  every call. The source does so on the first call only; once the list is cached the slice
  bound is \<^verbatim>\<open>math.floor(len(self.examples))\<close>, the factor \<open>0.8\<close> being left out, and the
  whole list comes back. With five examples the second call returns all five, and the
  fifth one is in the dev split as well.
\<close>

theorem get_train_examples_cached_returns_whole_list:
  "fst (get_train_examples [0, 1, 2, 3, 4 :: nat] \<lparr>examples = None\<rparr>) = [0, 1, 2, 3]
   \<and> fst (get_train_examples [0, 1, 2, 3, 4 :: nat]
         (snd (get_train_examples [0, 1, 2, 3, 4] \<lparr>examples = None\<rparr>))) = [0, 1, 2, 3, 4]
   \<and> fst (get_dev_examples [0, 1, 2, 3, 4 :: nat]
         (snd (get_train_examples [0, 1, 2, 3, 4] \<lparr>examples = None\<rparr>))) = [4]"
  by (simp add: get_train_examples_def get_dev_examples_def floor_0_8_def)

section \<open>Properties of the augmentor\<close>

lemma py_slice_chunk:
  assumes "i < length xs"
  shows "py_slice xs (int i) (int i + int w) = take w (drop i xs)"
proof -
  have "nat (min (int i + int w) (int (length xs)) - int i) = min w (length xs - i)"
    using assms by auto
  then show ?thesis
    using assms by (simp add: py_slice_def Let_def min_def)
qed

lemma ngrams_loop_chunks:
  assumes "0 < w"
  shows "ngrams_loop tokens (int w) (int i) acc = Some (acc @ chunks w (drop i tokens))"
proof (induction "length tokens - i" arbitrary: i acc rule: less_induct)
  case less
  show ?case
  proof (cases "i < length tokens")
    case False
    then show ?thesis
      by (subst ngrams_loop.simps, subst chunks.simps) simp
  next
    case True
    with assms have "length tokens - (i + w) < length tokens - i" by simp
    from less [OF this]
    have ih: "ngrams_loop tokens (int w) (int (i + w)) (acc @ [take w (drop i tokens)])
        = Some ((acc @ [take w (drop i tokens)]) @ chunks w (drop (i + w) tokens))" .
    have ch: "chunks w (drop i tokens) = take w (drop i tokens) # chunks w (drop (i + w) tokens)"
      using True assms by (subst chunks.simps) (simp add: add.commute)
    show ?thesis
      using True ih by (subst ngrams_loop.simps) (simp add: py_slice_chunk ch)
  qed
qed

lemma concat_chunks: "0 < w \<Longrightarrow> concat (chunks w xs) = xs"
proof (induction w xs rule: chunks.induct)
  case (1 w xs)
  then show ?case by (subst chunks.simps) auto
qed

lemma chunks_nth:
  "0 < w \<Longrightarrow> k * w < length xs \<Longrightarrow> chunks w xs ! k = take w (drop (k * w) xs)"
proof (induction k arbitrary: xs)
  case 0
  then show ?case by (subst chunks.simps) auto
next
  case (Suc k)
  from Suc.prems have "k * w < length (drop w xs)" by simp
  from Suc.IH [OF Suc.prems(1) this] Suc.prems show ?case
    by (subst chunks.simps) (auto simp: add.commute)
qed

lemma shuffle_loop_mset:
  "k < length x \<Longrightarrow> mset (fst (shuffle_loop k x g)) = mset x"
proof (induction k arbitrary: x g)
  case 0
  then show ?case by simp
next
  case (Suc k)
  define j where "j = g 0 mod (Suc k + 1)"
  have "j < Suc k + 1" by (simp add: j_def)
  with Suc.prems have j: "j < length x" by simp
  have sw: "mset (x[Suc k := x ! j, j := x ! Suc k]) = mset x"
    using j Suc.prems by (rule mset_swap)
  have "k < length (x[Suc k := x ! j, j := x ! Suc k])"
    using Suc.prems by simp
  from Suc.IH [OF this] sw show ?case
    by (simp add: randbelow_def j_def)
qed

lemma shuffle_mset: "mset (fst (shuffle x g)) = mset x"
proof (cases x)
  case Nil
  then show ?thesis by (simp add: shuffle_def)
next
  case (Cons a as)
  then show ?thesis by (simp add: shuffle_def shuffle_loop_mset)
qed

lemma foldl_append_concat: "foldl (@) acc xs = acc @ concat xs"
  by (induction xs arbitrary: acc) auto

lemma permutation_Some:
  assumes "1 \<le> w"
  shows "permutation tokens (Some w) g =
     Some (concat (fst (shuffle (chunks (nat w) tokens) g)),
           snd (shuffle (chunks (nat w) tokens) g))"
proof -
  from assms have w: "0 < nat w" by auto
  from ngrams_loop_chunks [OF w, of tokens 0 "[]"] assms
  have "ngrams_loop tokens w 0 [] = Some (chunks (nat w) tokens)"
    by simp
  then show ?thesis
    by (simp add: permutation_def foldl_append_concat split: prod.splits)
qed

lemma ngrams_loop_never_returns:
  assumes ret: "ngrams_loop tokens w i acc = Some r"
  shows "\<not> (w \<le> 0 \<and> i < int (length tokens))"
proof (rule ngrams_loop.raw_induct
    [where P = "\<lambda>tokens w i acc r. \<not> (w \<le> 0 \<and> i < int (length tokens))", OF _ ret])
  fix loop :: "'a list \<Rightarrow> int \<Rightarrow> int \<Rightarrow> 'a list list \<Rightarrow> 'a list list option"
    and tokens w i acc r
  assume ih: "\<And>tokens w i acc r. loop tokens w i acc = Some r
      \<Longrightarrow> \<not> (w \<le> 0 \<and> i < int (length tokens))"
    and step: "(if i < int (length tokens)
         then loop tokens w (i + w) (acc @ [py_slice tokens i (i + w)])
         else Some acc) = Some r"
  show "\<not> (w \<le> 0 \<and> i < int (length tokens))"
  proof
    assume a: "w \<le> 0 \<and> i < int (length tokens)"
    with step have "loop tokens w (i + w) (acc @ [py_slice tokens i (i + w)]) = Some r"
      by simp
    from ih [OF this] a show False by simp
  qed
qed

lemma permutation_diverges:
  assumes "w \<le> 0" and "tokens \<noteq> []"
  shows "permutation tokens (Some w) g = None"
proof -
  have "ngrams_loop tokens w 0 [] = None"
  proof (cases "ngrams_loop tokens w 0 []")
    case None
    then show ?thesis .
  next
    case (Some r)
    from ngrams_loop_never_returns [OF this] assms show ?thesis by simp
  qed
  then show ?thesis by (simp add: permutation_def)
qed

text \<open>
  Claim C8: with no chunk width the augmentor returns its input unchanged. With a chunk
  width \<open>w \<ge> 1\<close> it returns the concatenation of a list \<open>p\<close> of chunks that is a permutation
  of the consecutive chunks \<open>tokens[0:w]\<close>, \<open>tokens[w:2w]\<close>, ... (the last one possibly
  shorter); the chunks themselves are not changed, so the order of the tokens inside each
  one is kept.
\<close>

theorem permutation_chunks:
  "permutation tokens None g = Some (tokens, g)
   \<and> (1 \<le> w \<longrightarrow> (\<exists>p g'. permutation tokens (Some w) g = Some (concat p, g')
          \<and> mset p = mset (chunks (nat w) tokens)))"
proof -
  have "permutation tokens None g = Some (tokens, g)"
    by (simp add: permutation_def)
  moreover
  { assume "1 \<le> w"
    then have "\<exists>p g'. permutation tokens (Some w) g = Some (concat p, g')
          \<and> mset p = mset (chunks (nat w) tokens)"
      using permutation_Some [of w tokens g] shuffle_mset [of "chunks (nat w) tokens" g]
      by blast }
  ultimately show ?thesis by blast
qed

theorem permutation_chunks_witness:
  "(1 :: int) \<le> 2
   \<and> chunks (nat 2) ''abcde'' = [''ab'', ''cd'', ''e'']
   \<and> permutation ''abcde'' None (\<lambda>k. 0) = Some (''abcde'', (\<lambda>k. 0))
   \<and> (\<exists>p g'. permutation ''abcde'' (Some 2) (\<lambda>k. 0) = Some (concat p, g')
          \<and> mset p = mset [''ab'', ''cd'', ''e''])"
proof -
  have h: "(1 :: int) \<le> 2" by simp
  have c: "chunks (nat 2) ''abcde'' = [''ab'', ''cd'', ''e'']"
    by (simp add: chunks.simps)
  from permutation_chunks [of "''abcde''" "\<lambda>k. 0" 2] h
  have "permutation ''abcde'' None (\<lambda>k. 0) = Some (''abcde'', (\<lambda>k. 0))"
    and "\<exists>p g'. permutation ''abcde'' (Some 2) (\<lambda>k. 0) = Some (concat p, g')
          \<and> mset p = mset (chunks (nat 2) ''abcde'')"
    by blast+
  with h c show ?thesis by (simp only: simp_thms)
qed

text \<open>
  Claim C10: the augmentor returns for every token sequence when the chunk width is absent
  or at least 1. With a chunk width of 0 or below and a non-empty token sequence the index
  of the chunking loop never passes the end of the sequence, and the call does not return.
\<close>

theorem permutation_totality:
  "(permute_ngrams = None \<or> (\<exists>w. permute_ngrams = Some w \<and> 1 \<le> w)
      \<longrightarrow> (\<exists>r. permutation tokens permute_ngrams g = Some r))
   \<and> ((\<exists>w. permute_ngrams = Some w \<and> w \<le> 0) \<and> tokens \<noteq> []
      \<longrightarrow> permutation tokens permute_ngrams g = None)"
proof (intro conjI impI)
  assume "permute_ngrams = None \<or> (\<exists>w. permute_ngrams = Some w \<and> 1 \<le> w)"
  then show "\<exists>r. permutation tokens permute_ngrams g = Some r"
  proof
    assume "permute_ngrams = None"
    then show ?thesis by (simp add: permutation_def)
  next
    assume "\<exists>w. permute_ngrams = Some w \<and> 1 \<le> w"
    then obtain w where "permute_ngrams = Some w" "1 \<le> w" by blast
    then show ?thesis using permutation_Some [of w tokens g] by simp
  qed
next
  assume "(\<exists>w. permute_ngrams = Some w \<and> w \<le> 0) \<and> tokens \<noteq> []"
  then obtain w where "permute_ngrams = Some w" "w \<le> 0" "tokens \<noteq> []" by blast
  then show "permutation tokens permute_ngrams g = None"
    by (simp add: permutation_diverges)
qed

theorem permutation_totality_witness:
  "(\<exists>r. permutation ''abc'' (Some 2) (\<lambda>k. 0) = Some r)
   \<and> (\<exists>r. permutation ''abc'' None (\<lambda>k. 0) = Some r)
   \<and> permutation ''abc'' (Some 0) (\<lambda>k. 0) = None
   \<and> permutation ''abc'' (Some (- 1)) (\<lambda>k. 0) = None"
  using permutation_totality [of "Some 2" "''abc''" "\<lambda>k. 0"]
    permutation_totality [of None "''abc''" "\<lambda>k. 0"]
    permutation_totality [of "Some 0" "''abc''" "\<lambda>k. 0"]
    permutation_totality [of "Some (- 1)" "''abc''" "\<lambda>k. 0"]
  by simp

section \<open>Properties of the feature assembler\<close>

lemma zero_pad_eq:
  "zero_pad ids msk segs L =
     (ids @ replicate (nat (L - int (length ids))) 0,
      msk @ replicate (nat (L - int (length ids))) 0,
      segs @ replicate (nat (L - int (length ids))) 0)"
proof (induction ids msk segs L rule: zero_pad.induct)
  case (1 ids msk segs L)
  show ?case
  proof (cases "int (length ids) < L")
    case True
    then have k: "nat (L - int (length ids)) = Suc (nat (L - int (length (ids @ [0]))))"
      by simp
    show ?thesis
      using True 1
      by (subst zero_pad.simps) (simp add: k replicate_app_Cons_same del: length_append)
  next
    case False
    then show ?thesis by (subst zero_pad.simps) simp
  qed
qed

lemma assemble_tokens_length:
  "assemble_tokens a b = (t, s) \<Longrightarrow> length s = length t"
  by (auto simp: assemble_tokens_def Let_def split: option.splits if_splits)

lemma assembled_tokens_length:
  "assembled_tokens tok ex L w g = Some (Inr (t, s, g')) \<Longrightarrow> length s = length t"
  by (auto simp: assembled_tokens_def split: option.splits sum.splits prod.splits
      dest: assemble_tokens_length)

lemma build_features_lengths:
  assumes "build_features ex L tok lm pr tokens segs0 = Inr f"
  shows "int (length (input_ids f)) = L \<and> int (length (input_mask f)) = L
     \<and> int (length (segment_ids f)) = L"
  using assms
  by (auto simp: build_features_def split: sum.splits prod.splits if_splits)

lemma construct_features_build:
  assumes "construct_features i ex L tok lm pr w g = Some (Inr (f, g'))"
  shows "\<exists>tokens segs0. assembled_tokens tok ex L w g = Some (Inr (tokens, segs0, g'))
     \<and> build_features ex L tok lm pr tokens segs0 = Inr f"
  using assms
  by (auto simp: construct_features_def split: option.splits sum.splits prod.splits)

lemma build_features_padding:
  assumes bf: "build_features ex L tok lm pr tokens segs0 = Inr f"
    and len: "length segs0 = length tokens"
  shows "int (length tokens) \<le> L
     \<and> input_mask f = replicate (length tokens) 1 @ replicate (nat L - length tokens) 0
     \<and> drop (length tokens) (input_ids f) = replicate (nat L - length tokens) 0
     \<and> segment_ids f = segs0 @ replicate (nat L - length tokens) 0"
proof -
  from bf obtain ids0 where conv: "convert_tokens_to_ids tok tokens = Inr ids0"
    by (auto simp: build_features_def split: sum.splits)
  define k where "k = nat (L - int (length ids0))"
  from bf conv have fields:
    "input_ids f = ids0 @ replicate k 0"
    "input_mask f = replicate (length ids0) 1 @ replicate k 0"
    "segment_ids f = segs0 @ replicate k 0"
    and lens: "int (length (ids0 @ replicate k (0::int))) = L"
      "int (length (segs0 @ replicate k (0::int))) = L"
    by (auto simp: build_features_def zero_pad_eq k_def split: sum.splits if_splits)
  from lens have same: "length ids0 = length tokens"
    using len by simp
  from lens same have k: "k = nat L - length tokens" and le: "int (length tokens) \<le> L"
    by auto
  show ?thesis
    using fields same k le by simp
qed

lemma build_features_predict:
  assumes "build_features ex L tok lm True tokens segs0 = Inr f"
  shows "label_id f = None
    \<and> (\<exists>a. article_id f = Some a \<and> py_index (py_split CHR ''-'' (guid ex)) 1 = Inr a)"
  using assms
  by (auto simp: build_features_def split: sum.splits prod.splits if_splits)

lemma py_split_nonempty: "py_split c s \<noteq> []"
  by (induction s) (auto split: list.splits)

lemma py_split_no_sep: "c \<notin> set s \<Longrightarrow> py_split c s = [s]"
  by (induction s) auto

lemma py_split_first_field:
  "c \<notin> set s \<Longrightarrow> py_split c (s @ c # t) = s # py_split c t"
  by (induction s) auto

lemma guid_second_field:
  assumes "CHR ''-'' \<notin> set ident"
  shows "py_index (py_split CHR ''-'' (''inference'' @ ''-'' @ ident)) 1 = Inr ident"
proof -
  have "py_split CHR ''-'' (''inference'' @ CHR ''-'' # ident)
      = ''inference'' # py_split CHR ''-'' ident"
    by (rule py_split_first_field) simp
  with assms show ?thesis
    by (simp add: py_split_no_sep py_index_def)
qed

lemma truncate_single_length:
  "2 \<le> L \<Longrightarrow> int (length (truncate_single a L)) \<le> L - 2"
  by (auto simp: truncate_single_def py_slice_def Let_def min_def)

text \<open>
  The assembler does return a record in the plain case: one text, no chunk width, room for
  the two markers, a conversion that gives one id per token, and a known label.
\<close>

lemma construct_features_single_returns:
  assumes tb: "text_b ex = None"
    and L: "2 \<le> L"
    and conv: "\<And>ts. \<exists>ids. convert_tokens_to_ids tok ts = Inr ids \<and> length ids = length ts"
    and lab: "label ex = Some l" "lm l = Some i"
  shows "\<exists>f. construct_features k ex L tok lm False None g = Some (Inr (f, g))"
proof -
  define a where "a = truncate_single (tokenize tok (text_a ex)) L"
  define tokens where "tokens = [''[CLS]''] @ a @ [''[SEP]'']"
  define segs0 :: "int list" where "segs0 = [0] @ map (\<lambda>token. 0) a @ [0]"
  have at: "assembled_tokens tok ex L None g = Some (Inr (tokens, segs0, g))"
    using tb
    by (simp add: assembled_tokens_def tokenize_and_permute_def permutation_def
        truncate_tokens_def assemble_tokens_def Let_def a_def tokens_def segs0_def)
  from conv obtain ids where ids: "convert_tokens_to_ids tok tokens = Inr ids"
    "length ids = length tokens" by blast
  from truncate_single_length [OF L, of "tokenize tok (text_a ex)"]
  have le: "int (length tokens) \<le> L"
    by (simp add: tokens_def a_def)
  have sl: "length segs0 = length tokens"
    by (simp add: tokens_def segs0_def)
  from ids le sl lab
  have "\<exists>f. build_features ex L tok lm False tokens segs0 = Inr f"
    by (simp add: build_features_def zero_pad_eq label_lookup_def)
  with at show ?thesis
    by (auto simp: construct_features_def)
qed

text \<open>
  Claim C3: every record that the feature assembler returns has \<open>input_ids\<close>, \<open>input_mask\<close>
  and \<open>segment_ids\<close> of length exactly \<open>L\<close>, the maximum sequence length, whatever the
  example (one text or two), the mode (training or inference), the chunk width and the
  tokenizer are.
\<close>

theorem construct_features_lengths:
  assumes "construct_features i ex L tok lm pr w g = Some (Inr (f, g'))"
  shows "int (length (input_ids f)) = L \<and> int (length (input_mask f)) = L
     \<and> int (length (segment_ids f)) = L"
proof -
  from construct_features_build [OF assms] obtain tokens segs0
    where "build_features ex L tok lm pr tokens segs0 = Inr f"
    by blast
  then show ?thesis by (rule build_features_lengths)
qed

lemmas construct_features_unfold =
  construct_features_def assembled_tokens_def tokenize_and_permute_def
  permutation_def truncate_tokens_def truncate_single_def assemble_tokens_def
  build_features_def label_lookup_def py_index_def py_slice_def Let_def
  zero_pad.simps truncate_seq_pair.simps

theorem construct_features_lengths_witness:
  "construct_features 0
     \<lparr>guid = ''0'', text_a = ''ab'', text_b = None, label = Some ''true''\<rparr> 5
     \<lparr>tokenize = map (\<lambda>c. [c]),
      convert_tokens_to_ids = (\<lambda>ts. Inr (map (\<lambda>t. int (length t)) ts))\<rparr>
     [''false'' \<mapsto> 0, ''true'' \<mapsto> 1] False None (\<lambda>k. 0)
   = Some (Inr (\<lparr>input_ids = [5, 1, 1, 5, 0], input_mask = [1, 1, 1, 1, 0],
        segment_ids = [0, 0, 0, 0, 0], label_id = Some 1, article_id = None\<rparr>, (\<lambda>k. 0)))
   \<and> int (length [5, 1, 1, 5, 0 :: int]) = 5
   \<and> int (length [1, 1, 1, 1, 0 :: int]) = 5
   \<and> int (length [0, 0, 0, 0, 0 :: int]) = 5"
proof -
  have h: "construct_features 0
     \<lparr>guid = ''0'', text_a = ''ab'', text_b = None, label = Some ''true''\<rparr> 5
     \<lparr>tokenize = map (\<lambda>c. [c]),
      convert_tokens_to_ids = (\<lambda>ts. Inr (map (\<lambda>t. int (length t)) ts))\<rparr>
     [''false'' \<mapsto> 0, ''true'' \<mapsto> 1] False None (\<lambda>k. 0)
   = Some (Inr (\<lparr>input_ids = [5, 1, 1, 5, 0], input_mask = [1, 1, 1, 1, 0],
        segment_ids = [0, 0, 0, 0, 0], label_id = Some 1, article_id = None\<rparr>, (\<lambda>k. 0)))"
    by (simp add: construct_features_unfold)
  from construct_features_lengths [OF h] h show ?thesis
    by (simp only: InputFeatures.simps simp_thms)
qed

text \<open>
  Claim C5: in every record that the feature assembler returns, with \<open>n\<close> the real content
  length (the number of tokens of the assembled stream, boundary markers included),
  \<open>n \<le> L\<close>, \<open>input_mask\<close> is \<open>n\<close> ones followed by \<open>L - n\<close> zeros, and from position \<open>n\<close> on
  \<open>input_ids\<close> and \<open>segment_ids\<close> hold only zeros as well.
\<close>

theorem construct_features_mask_and_padding:
  assumes "construct_features i ex L tok lm pr w g = Some (Inr (f, g'))"
    and "assembled_tokens tok ex L w g = Some (Inr (tokens, segs0, g1))"
  shows "int (length tokens) \<le> L
     \<and> input_mask f = replicate (length tokens) 1 @ replicate (nat L - length tokens) 0
     \<and> drop (length tokens) (input_ids f) = replicate (nat L - length tokens) 0
     \<and> drop (length tokens) (segment_ids f) = replicate (nat L - length tokens) 0"
proof -
  from construct_features_build [OF assms(1)] assms(2)
  have bf: "build_features ex L tok lm pr tokens segs0 = Inr f"
    by auto
  from assms(2) have len: "length segs0 = length tokens"
    by (rule assembled_tokens_length)
  from build_features_padding [OF bf len] len show ?thesis by simp
qed

theorem construct_features_mask_and_padding_witness:
  "construct_features 0
     \<lparr>guid = ''inference-7'', text_a = ''abcd'', text_b = Some ''xyz'', label = None\<rparr> 12
     \<lparr>tokenize = map (\<lambda>c. [c]),
      convert_tokens_to_ids = (\<lambda>ts. Inr (map (\<lambda>t. int (length t)) ts))\<rparr>
     Map.empty True None (\<lambda>k. 0)
   = Some (Inr (\<lparr>input_ids = [5, 1, 1, 1, 1, 5, 1, 1, 1, 5, 0, 0],
        input_mask = [1, 1, 1, 1, 1, 1, 1, 1, 1, 1, 0, 0],
        segment_ids = [0, 0, 0, 0, 0, 0, 1, 1, 1, 1, 0, 0],
        label_id = None, article_id = Some ''7''\<rparr>, (\<lambda>k. 0)))
   \<and> assembled_tokens
     \<lparr>tokenize = map (\<lambda>c. [c]),
      convert_tokens_to_ids = (\<lambda>ts. Inr (map (\<lambda>t. int (length t)) ts))\<rparr>
     \<lparr>guid = ''inference-7'', text_a = ''abcd'', text_b = Some ''xyz'', label = None\<rparr> 12
     None (\<lambda>k. 0)
   = Some (Inr ([''[CLS]'', ''a'', ''b'', ''c'', ''d'', ''[SEP]'', ''x'', ''y'', ''z'', ''[SEP]''],
        [0, 0, 0, 0, 0, 0, 1, 1, 1, 1], (\<lambda>k. 0)))
   \<and> [1, 1, 1, 1, 1, 1, 1, 1, 1, 1, 0, 0 :: int] = replicate 10 1 @ replicate (nat 12 - 10) 0
   \<and> drop 10 [5, 1, 1, 1, 1, 5, 1, 1, 1, 5, 0, 0 :: int] = replicate (nat 12 - 10) 0
   \<and> drop 10 [0, 0, 0, 0, 0, 0, 1, 1, 1, 1, 0, 0 :: int] = replicate (nat 12 - 10) 0"
proof -
  have h1: "construct_features 0
     \<lparr>guid = ''inference-7'', text_a = ''abcd'', text_b = Some ''xyz'', label = None\<rparr> 12
     \<lparr>tokenize = map (\<lambda>c. [c]),
      convert_tokens_to_ids = (\<lambda>ts. Inr (map (\<lambda>t. int (length t)) ts))\<rparr>
     Map.empty True None (\<lambda>k. 0)
   = Some (Inr (\<lparr>input_ids = [5, 1, 1, 1, 1, 5, 1, 1, 1, 5, 0, 0],
        input_mask = [1, 1, 1, 1, 1, 1, 1, 1, 1, 1, 0, 0],
        segment_ids = [0, 0, 0, 0, 0, 0, 1, 1, 1, 1, 0, 0],
        label_id = None, article_id = Some ''7''\<rparr>, (\<lambda>k. 0)))"
    by (simp add: construct_features_unfold)
  have h2: "assembled_tokens
     \<lparr>tokenize = map (\<lambda>c. [c]),
      convert_tokens_to_ids = (\<lambda>ts. Inr (map (\<lambda>t. int (length t)) ts))\<rparr>
     \<lparr>guid = ''inference-7'', text_a = ''abcd'', text_b = Some ''xyz'', label = None\<rparr> 12
     None (\<lambda>k. 0)
   = Some (Inr ([''[CLS]'', ''a'', ''b'', ''c'', ''d'', ''[SEP]'', ''x'', ''y'', ''z'', ''[SEP]''],
        [0, 0, 0, 0, 0, 0, 1, 1, 1, 1], (\<lambda>k. 0)))"
    by (simp add: construct_features_unfold)
  have n: "length [''[CLS]'', ''a'', ''b'', ''c'', ''d'', ''[SEP]'', ''x'', ''y'', ''z'', ''[SEP]'']
      = 10" by simp
  from construct_features_mask_and_padding [OF h1 h2] h1 h2 show ?thesis
    by (simp only: InputFeatures.simps n simp_thms)
qed

text \<open>
  Claim C9 says that in inference mode the record id is the identifier of the article.
  The source takes the second field of the example's guid split at \<^verbatim>\<open>'-'\<close>, and the guid
  is \<^verbatim>\<open>"inference-"\<close> followed by the identifier, so an identifier with a hyphen in it is
  cut: for the article with identifier \<^verbatim>\<open>12-34\<close> the record id is \<^verbatim>\<open>12\<close>.
\<close>

theorem construct_features_article_id_counterexample:
  "construct_features 0
     (official_get_dev_examples [\<lparr>art_id = Some ''12-34'', art_text = ''xyz''\<rparr>] ! 0) 6
     \<lparr>tokenize = map (\<lambda>c. [c]),
      convert_tokens_to_ids = (\<lambda>ts. Inr (map (\<lambda>t. int (length t)) ts))\<rparr>
     Map.empty True None (\<lambda>k. 0)
   = Some (Inr (\<lparr>input_ids = [5, 1, 1, 1, 5, 0], input_mask = [1, 1, 1, 1, 1, 0],
        segment_ids = [0, 0, 0, 0, 0, 0], label_id = None,
        article_id = Some ''12''\<rparr>, (\<lambda>k. 0)))
   \<and> Some ''12'' \<noteq> art_id \<lparr>art_id = Some ''12-34'', art_text = ''xyz''\<rparr>"
  by (simp add: construct_features_unfold official_get_dev_examples_def
      official_create_examples_def official_example_def py_str_def)

text \<open>
  Claim C9, amended: in inference mode every record that the feature assembler returns has
  no label id, and its record id is the second \<^verbatim>\<open>'-'\<close>-separated field of the example's
  guid. For an example of the streaming-XML source the guid is \<^verbatim>\<open>"inference-"\<close> followed by
  the article's identifier attribute, so when that identifier is present and contains no
  \<^verbatim>\<open>'-'\<close> the record id is exactly the identifier.
\<close>

theorem construct_features_article_id:
  assumes cf: "construct_features k ex L tok lm True w g = Some (Inr (f, g'))"
  shows "label_id f = None
     \<and> (\<exists>a. article_id f = Some a \<and> py_index (py_split CHR ''-'' (guid ex)) 1 = Inr a)
     \<and> (\<forall>articles j ident.
           j < length articles \<and> ex = official_get_dev_examples articles ! j
           \<and> art_id (articles ! j) = Some ident \<and> CHR ''-'' \<notin> set ident
           \<longrightarrow> article_id f = Some ident)"
proof -
  from construct_features_build [OF cf] obtain tokens segs0
    where "build_features ex L tok lm True tokens segs0 = Inr f"
    by blast
  from build_features_predict [OF this]
  have lab: "label_id f = None"
    and fld: "\<exists>a. article_id f = Some a \<and> py_index (py_split CHR ''-'' (guid ex)) 1 = Inr a"
    by blast+
  have xml: "article_id f = Some ident"
    if j: "j < length articles" and ex: "ex = official_get_dev_examples articles ! j"
      and ident: "art_id (articles ! j) = Some ident" and nosep: "CHR ''-'' \<notin> set ident"
    for articles j ident
  proof -
    from j ex ident have "guid ex = ''inference'' @ ''-'' @ ident"
      by (simp add: official_get_dev_examples_def official_create_examples_def
          official_example_def py_str_def)
    with fld guid_second_field [OF nosep] show ?thesis by auto
  qed
  from lab fld xml show ?thesis by blast
qed

theorem construct_features_article_id_witness:
  "construct_features 0
     (official_get_dev_examples [\<lparr>art_id = Some ''0000007'', art_text = ''xyz''\<rparr>] ! 0) 6
     \<lparr>tokenize = map (\<lambda>c. [c]),
      convert_tokens_to_ids = (\<lambda>ts. Inr (map (\<lambda>t. int (length t)) ts))\<rparr>
     Map.empty True None (\<lambda>k. 0)
   = Some (Inr (\<lparr>input_ids = [5, 1, 1, 1, 5, 0], input_mask = [1, 1, 1, 1, 1, 0],
        segment_ids = [0, 0, 0, 0, 0, 0], label_id = None,
        article_id = Some ''0000007''\<rparr>, (\<lambda>k. 0)))
   \<and> (0 :: nat) < length [\<lparr>art_id = Some ''0000007'', art_text = ''xyz''\<rparr>]
   \<and> art_id ([\<lparr>art_id = Some ''0000007'', art_text = ''xyz''\<rparr>] ! 0) = Some ''0000007''
   \<and> CHR ''-'' \<notin> set ''0000007''
   \<and> py_index (py_split CHR ''-''
         (guid (official_get_dev_examples
            [\<lparr>art_id = Some ''0000007'', art_text = ''xyz''\<rparr>] ! 0))) 1
       = Inr ''0000007''"
proof -
  define f where "f = \<lparr>input_ids = [5, 1, 1, 1, 5, 0 :: int],
        input_mask = [1, 1, 1, 1, 1, 0 :: int],
        segment_ids = [0, 0, 0, 0, 0, 0 :: int], label_id = None,
        article_id = Some ''0000007''\<rparr>"
  have h1: "(0 :: nat) < length [\<lparr>art_id = Some ''0000007'', art_text = ''xyz''\<rparr>]"
    by simp
  have h2: "art_id ([\<lparr>art_id = Some ''0000007'', art_text = ''xyz''\<rparr>] ! 0) = Some ''0000007''"
    by simp
  have h3: "CHR ''-'' \<notin> set ''0000007''" by simp
  have h4: "construct_features 0
     (official_get_dev_examples [\<lparr>art_id = Some ''0000007'', art_text = ''xyz''\<rparr>] ! 0) 6
     \<lparr>tokenize = map (\<lambda>c. [c]),
      convert_tokens_to_ids = (\<lambda>ts. Inr (map (\<lambda>t. int (length t)) ts))\<rparr>
     Map.empty True None (\<lambda>k. 0)
   = Some (Inr (f, (\<lambda>k. 0)))"
    unfolding f_def
    by (simp add: construct_features_unfold official_get_dev_examples_def
      official_create_examples_def official_example_def py_str_def)
  from construct_features_article_id [OF h4]
  have fld: "\<exists>a. article_id f = Some a
      \<and> py_index (py_split CHR ''-''
           (guid (official_get_dev_examples
              [\<lparr>art_id = Some ''0000007'', art_text = ''xyz''\<rparr>] ! 0))) 1 = Inr a"
    and xml: "\<forall>articles j ident.
           j < length articles
           \<and> official_get_dev_examples [\<lparr>art_id = Some ''0000007'', art_text = ''xyz''\<rparr>] ! 0
               = official_get_dev_examples articles ! j
           \<and> art_id (articles ! j) = Some ident \<and> CHR ''-'' \<notin> set ident
           \<longrightarrow> article_id f = Some ident"
    by blast+
  from xml h1 h2 h3 have a: "article_id f = Some ''0000007''"
    by blast
  from fld a have p: "py_index (py_split CHR ''-''
         (guid (official_get_dev_examples
            [\<lparr>art_id = Some ''0000007'', art_text = ''xyz''\<rparr>] ! 0))) 1
       = Inr ''0000007''"
    by auto
  from h4 h1 h2 h3 p show ?thesis
    unfolding f_def by (simp only: simp_thms)
qed

end
